theory Spec2Isabelle
  imports Main
begin

section \<open>Data model of \<open>AllObligationsView.tsx\<close>\<close>

text \<open>
  The types \<open>Project\<close>, \<open>ObligationData\<close>, \<open>ObligationResponse\<close> and \<open>Embedded\<close> are
  imported by the source from \<open>@/object-types\<close>; the fields below are the ones the source
  reads. An optional field (\<open>f?\<close>, read through \<open>?.\<close> or guarded by a truthiness test) is
  an \<open>option\<close>; \<open>None\<close> stands for \<open>undefined\<close> (and for a JSON \<open>null\<close>, which every
  test of the source treats alike).
\<close>

record ProjectLink =
  project :: "string option"

datatype Project = Project
  (p_id: "string option")
  (self_href: "string option")
  (name: string)
  (version: "string option")
  (linkedProjects: "ProjectLink list option")
  (embedded_linkedProjects: "Project list option")

text \<open>
  \<open>p_id\<close> is the field \<open>id\<close>, \<open>self_href\<close> is \<open>_links?.self.href\<close> and
  \<open>embedded_linkedProjects\<close> is \<open>_embedded?.['sw360:linkedProjects']\<close>.
\<close>

record ObligationData =
  status :: "string option"
  obligationType :: "string option"
  obligationLevel :: "string option"
  ob_id :: "string option"
  licenseIds :: "string list option"
  releases :: "(string \<times> string) list option"
  comment :: "string option"

record AggregatedObligation = ObligationData +
  projectName :: string
  projectVersion :: "string option"
  projectId :: string
  obligationTitle :: string
  projectPath :: string

record LinkedProjects =
  embedded_projects :: "Project list option"

text \<open>
  A JavaScript object used as a dictionary from titles to obligations is an association
  list: the sequence of entries that \<open>Object.entries\<close> enumerates, one entry per key.
\<close>

type_synonym obligations = "(string \<times> ObligationData) list"

record ObligationResponse =
  obligations :: "obligations option"

section \<open>String and truthiness helpers of JavaScript\<close>

text \<open>\<open>s.split(c)\<close> for a one-character separator: never empty, \<open>''.split('/') = ['']\<close>.\<close>

fun split :: "char \<Rightarrow> string \<Rightarrow> string list" where
  "split c [] = [[]]"
| "split c (x # xs) =
     (if x = c then [] # split c xs
      else (case split c xs of [] \<Rightarrow> [[x]] | y # ys \<Rightarrow> (x # y) # ys))"

text \<open>\<open>xs.at(-1)\<close>: the last element, \<open>undefined\<close> on an empty array.\<close>

definition at_last :: "'a list \<Rightarrow> 'a option" where
  "at_last xs = (if xs = [] then None else Some (last xs))"

text \<open>\<open>xs.join(sep)\<close>.\<close>

fun join :: "string \<Rightarrow> string list \<Rightarrow> string" where
  "join sep [] = []"
| "join sep [x] = x"
| "join sep (x # y # zs) = x @ sep @ join sep (y # zs)"

text \<open>A string or \<open>undefined\<close> is truthy when it is a non-empty string.\<close>

definition truthy :: "string option \<Rightarrow> bool" where
  "truthy v = (case v of None \<Rightarrow> False | Some s \<Rightarrow> s \<noteq> [])"

text \<open>\<open>a || b\<close> on such values.\<close>

definition js_or :: "string option \<Rightarrow> string option \<Rightarrow> string option" where
  "js_or a b = (if truthy a then a else b)"

section \<open>Identifiers of projects\<close>

text \<open>\<open>p._links?.self.href.split('/').at(-1)\<close>\<close>

definition href_last :: "Project \<Rightarrow> string option" where
  "href_last p =
     (case self_href p of None \<Rightarrow> None | Some h \<Rightarrow> at_last (split CHR ''/'' h))"

text \<open>\<open>p.id || p._links?.self.href.split('/').at(-1)\<close> (line 64)\<close>

definition id_or_href :: "Project \<Rightarrow> string option" where
  "id_or_href p = js_or (p_id p) (href_last p)"

text \<open>\<open>p.id || p._links?.self.href.split('/').at(-1) || ''\<close> (lines 46, 248 and 279)\<close>

definition pId :: "Project \<Rightarrow> string" where
  "pId p = (case js_or (id_or_href p) (Some []) of None \<Rightarrow> [] | Some s \<Rightarrow> s)"

section \<open>\<open>buildProjectPath\<close>\<close>

text \<open>
  \<open>new Map(allProjects.map((p) => [pId, p]))\<close>: of two projects with one key the later
  one stays, so a lookup reads the list from its end.
\<close>

definition projectMap :: "Project list \<Rightarrow> string \<Rightarrow> Project option" where
  "projectMap allProjects = map_of (rev (map (\<lambda>p. (pId p, p)) allProjects))"

text \<open>
  The callback of \<open>some\<close> (line 62), with \<open>currentId\<close> the value the variable holds
  when the callback runs:
  \<open>lp.project === currentId || lp.project?.split('/').at(-1) === currentId\<close>.
\<close>

definition refers_to :: "string option \<Rightarrow> ProjectLink \<Rightarrow> bool" where
  "refers_to currentId lp =
     (project lp = currentId \<or>
      (case project lp of None \<Rightarrow> None | Some s \<Rightarrow> at_last (split CHR ''/'' s)) = currentId)"

text \<open>\<open>p.linkedProjects?.some(...)\<close>: \<open>undefined\<close>, which is falsy, without the field.\<close>

definition links_to :: "string option \<Rightarrow> Project \<Rightarrow> bool" where
  "links_to currentId p =
     (case linkedProjects p of None \<Rightarrow> False | Some lps \<Rightarrow> list_ex (refers_to currentId) lps)"

text \<open>
  The \<open>for\<close> loop of lines 60 to 67 over the rest of \<open>allProjects\<close>, as a function of the
  value of \<open>currentId\<close> on entry; the result is the value of \<open>currentId\<close> on exit. The
  first project that matches assigns the variable and leaves the loop.
\<close>

fun find_parent :: "string option \<Rightarrow> Project list \<Rightarrow> string option" where
  "find_parent currentId [] = currentId"
| "find_parent currentId (p # ps) =
     (if links_to currentId p then id_or_href p else find_parent currentId ps)"

text \<open>
  The \<open>while\<close> loop of lines 53 to 68. \<open>path.unshift\<close> puts the name in front. Line 59
  assigns \<open>undefined\<close> to \<open>currentId\<close> before the \<open>for\<close> loop starts, so the loop is
  entered with \<open>None\<close>. The loop has no bound in the source: not returning is \<open>None\<close>.
\<close>

partial_function (option) path_loop ::
  "Project list \<Rightarrow> string option \<Rightarrow> string list \<Rightarrow> string list option" where
  "path_loop allProjects currentId path =
     (case currentId of
        None \<Rightarrow> Some path
      | Some cid \<Rightarrow>
          if cid = [] then Some path
          else (case projectMap allProjects cid of
                  None \<Rightarrow> Some path
                | Some p \<Rightarrow> path_loop allProjects (find_parent None allProjects) (name p # path)))"

definition buildProjectPath :: "string \<Rightarrow> Project list \<Rightarrow> string option" where
  "buildProjectPath pid allProjects =
     map_option (join '' -> '') (path_loop allProjects (Some pid) [])"

section \<open>\<open>extractAllProjects\<close> and the flat list\<close>

text \<open>
  The array \<open>allProjectsFlat\<close> is mutated by \<open>push\<close>; the model takes it and returns it.
\<close>

lemma size_embedded_linkedProjects:
  "embedded_linkedProjects p = Some lps \<Longrightarrow> size_list size lps < size p"
  by (cases p) simp

function extractAllProjects :: "Project list \<Rightarrow> Project list \<Rightarrow> Project list" where
  "extractAllProjects [] allProjectsFlat = allProjectsFlat"
| "extractAllProjects (p # ps) allProjectsFlat =
     extractAllProjects ps
       (case embedded_linkedProjects p of
          None \<Rightarrow> allProjectsFlat @ [p]
        | Some lps \<Rightarrow>
            if length lps > 0 then extractAllProjects lps (allProjectsFlat @ [p])
            else allProjectsFlat @ [p])"
  by pat_completeness auto
termination
  by (relation "measure (\<lambda>(ps, acc). size_list size ps)")
     (auto dest: size_embedded_linkedProjects)

text \<open>Lines 235 to 239.\<close>

definition flatten :: "Project \<Rightarrow> LinkedProjects \<Rightarrow> Project list" where
  "flatten rootProject linkedProjectsData =
     extractAllProjects
       (case embedded_projects linkedProjectsData of None \<Rightarrow> [] | Some ps \<Rightarrow> ps)
       [rootProject]"

section \<open>Pre-order of the tree, as the specification words it\<close>

text \<open>
  The nested linked projects of a node (none without the field), a node followed by the
  pre-orders of its nested linked projects from left to right, and the number of nodes of
  the tree below a node, the node included.
\<close>

lemma size_nested_project:
  "embedded_linkedProjects p = Some lps \<Longrightarrow> c \<in> set lps \<Longrightarrow> size c < size p"
  using size_embedded_linkedProjects [of p lps] size_list_estimation' [of c lps "size c" size]
  by simp

function preorder :: "Project \<Rightarrow> Project list" where
  "preorder p =
     p # concat (map preorder
                   (case embedded_linkedProjects p of None \<Rightarrow> [] | Some lps \<Rightarrow> lps))"
  by pat_completeness auto
termination
  by (relation "measure size") (auto dest: size_nested_project [OF sym])

function node_count :: "Project \<Rightarrow> nat" where
  "node_count p =
     Suc (sum_list (map node_count
                      (case embedded_linkedProjects p of None \<Rightarrow> [] | Some lps \<Rightarrow> lps)))"
  by pat_completeness auto
termination
  by (relation "measure size") (auto dest: size_nested_project [OF sym])

section \<open>The backend, as the pipeline sees it\<close>

text \<open>
  What an \<open>await\<close> can throw: the \<open>DOMException\<close> named \<open>AbortError\<close> of a cancelled
  request, another instance of \<open>Error\<close> with its message, or a value that is no \<open>Error\<close>,
  with its \<open>String(...)\<close> rendering.
\<close>

datatype thrown = AbortError | Error string | Value string

text \<open>
  A response of \<open>ApiUtils.GET\<close> (not in the sources at hand: the promise either rejects
  or resolves to a response): its status and what \<open>await res.json()\<close> gives.
\<close>

datatype 'a response = Response (http_status: nat) (json: "thrown + 'a")

datatype request =
  GetProject string
| GetLinkedProjects string
| GetLicenseObligations string

text \<open>
  The three endpoints. The obligations of a project are asked for once per position of
  the flat list, so the answer may depend on the position (a cancelled run answers
  \<open>AbortError\<close> from some position on).
\<close>

record backend =
  getProject :: "string \<Rightarrow> thrown + Project response"
  getLinkedProjects :: "string \<Rightarrow> thrown + LinkedProjects response"
  getLicenseObligations :: "nat \<Rightarrow> string \<Rightarrow> thrown + ObligationResponse response"

definition OK :: nat where
  "OK = 200"

section \<open>Step 3: the obligations of each project\<close>

text \<open>
  \<open>ob[title] = detail\<close> for an own key of an object: a known key keeps its place, a new
  one is last.
\<close>

fun set_own :: "obligations \<Rightarrow> string \<Rightarrow> ObligationData \<Rightarrow> obligations" where
  "set_own [] title detail = [(title, detail)]"
| "set_own ((k, v) # ob) title detail =
     (if k = title then (k, detail) # ob else (k, v) # set_own ob title detail)"

text \<open>
  \<open>ob[title] = detail\<close> on an object. The key \<open>__proto__\<close> is no own key: assigning an
  object to it sets the prototype of \<open>ob\<close> and makes no entry. (What \<open>ob\<close> then inherits
  are the fields of an obligation, none of which has a \<open>status\<close> of its own, so that the
  look-up of line 287 passes the test of line 288 for no inherited key.)
\<close>

definition obj_set :: "obligations \<Rightarrow> string \<Rightarrow> ObligationData \<Rightarrow> obligations" where
  "obj_set ob title detail =
     (if title = ''__proto__'' then ob else set_own ob title detail)"

text \<open>\<open>ob[title]\<close>\<close>

definition obj_get :: "obligations \<Rightarrow> string \<Rightarrow> ObligationData option" where
  "obj_get ob title = map_of ob title"

text \<open>
  \<open>Object.entries(data.obligations).forEach(([title, detail]) => ob[title] = {...detail})\<close>
\<close>

definition copy_entries :: "obligations \<Rightarrow> obligations \<Rightarrow> obligations" where
  "copy_entries ob entries = foldl (\<lambda>ob (title, detail). obj_set ob title detail) ob entries"

text \<open>
  The mutable data of the loop: \<open>projectObligationsMap\<close>, the requests sent so far and
  the lines written by \<open>console.error\<close>.
  \<open>projectObligationsMap\<close> is a map from identifiers: an identifier that names a
  member of \<open>Object.prototype\<close> is not modelled apart.
\<close>

type_synonym fetch_state =
  "(string \<Rightarrow> obligations option) \<times> request list \<times> string list"

text \<open>
  The body of the loop of lines 247 to 270 for the project at position \<open>i\<close>. The inner
  \<open>try\<close> catches whatever \<open>ApiUtils.GET\<close> or \<open>res.json()\<close> throws.
\<close>

definition fetch_one :: "backend \<Rightarrow> nat \<Rightarrow> Project \<Rightarrow> fetch_state \<Rightarrow> fetch_state" where
  "fetch_one bk i p s =
     (case s of (projectObligationsMap, reqs, console) \<Rightarrow>
        if pId p = [] then s
        else
          let m = projectObligationsMap(pId p \<mapsto> []);
              reqs' = reqs @ [GetLicenseObligations (pId p)];
              failed = console @ [''Failed to parse response for project '' @ pId p]
          in (case getLicenseObligations bk i (pId p) of
                Inl e \<Rightarrow> (m, reqs', failed)
              | Inr res \<Rightarrow>
                  if http_status res = OK then
                    (case json res of
                       Inl e \<Rightarrow> (m, reqs', failed)
                     | Inr data \<Rightarrow>
                         (case obligations data of
                            None \<Rightarrow> (m, reqs', console)
                          | Some entries \<Rightarrow>
                              (m(pId p \<mapsto> copy_entries [] entries), reqs', console)))
                  else (m, reqs', console)))"

fun fetch_loop :: "backend \<Rightarrow> nat \<Rightarrow> Project list \<Rightarrow> fetch_state \<Rightarrow> fetch_state" where
  "fetch_loop bk i [] s = s"
| "fetch_loop bk i (p # ps) s = fetch_loop bk (Suc i) ps (fetch_one bk i p s)"

section \<open>Step 4: filter and build the final list\<close>

definition ACKNOWLEDGED_OR_FULFILLED :: string where
  "ACKNOWLEDGED_OR_FULFILLED = ''ACKNOWLEDGED_OR_FULFILLED''"

definition FULFILLED_AND_PARENT_MUST_ALSO_FULFILL :: string where
  "FULFILLED_AND_PARENT_MUST_ALSO_FULFILL = ''FULFILLED_AND_PARENT_MUST_ALSO_FULFILL''"

definition fulfilledStatuses :: "string list" where
  "fulfilledStatuses = [ACKNOWLEDGED_OR_FULFILLED, FULFILLED_AND_PARENT_MUST_ALSO_FULFILL]"

text \<open>\<open>detail.status && fulfilledStatuses.includes(detail.status)\<close> (line 283)\<close>

definition status_fulfilled :: "ObligationData \<Rightarrow> bool" where
  "status_fulfilled detail =
     (truthy (status detail) \<and>
      (case status detail of None \<Rightarrow> False | Some s \<Rightarrow> s \<in> set fulfilledStatuses))"

text \<open>
  The value of \<open>parentFulfillmentOk\<close> at line 293 (lines 284 to 291); \<open>projectId\<close> is the
  property of the component.
\<close>

definition parentFulfillmentOk ::
  "string \<Rightarrow> (string \<Rightarrow> obligations option) \<Rightarrow> string \<Rightarrow> ObligationData \<Rightarrow> bool" where
  "parentFulfillmentOk root_id projectObligationsMap title detail =
     (if status detail = Some FULFILLED_AND_PARENT_MUST_ALSO_FULFILL then
        (let rootObs = (case projectObligationsMap root_id of None \<Rightarrow> [] | Some ob \<Rightarrow> ob)
         in case obj_get rootObs title of
              None \<Rightarrow> False
            | Some rootOb \<Rightarrow>
                (case status rootOb of None \<Rightarrow> [] | Some s \<Rightarrow> s) \<in> set fulfilledStatuses)
      else True)"

text \<open>The object pushed at lines 294 to 301.\<close>

definition make_row :: "Project \<Rightarrow> string \<Rightarrow> ObligationData \<Rightarrow> string \<Rightarrow> AggregatedObligation" where
  "make_row p title detail path =
     \<lparr>status = status detail, obligationType = obligationType detail,
      obligationLevel = obligationLevel detail, ob_id = ob_id detail,
      licenseIds = licenseIds detail, releases = releases detail, comment = comment detail,
      projectName = name p, projectVersion = version p, projectId = pId p,
      obligationTitle = title, projectPath = path\<rparr>"

text \<open>
  The \<open>forEach\<close> of lines 282 to 304 over the entries of one project, pushing to
  \<open>allAggregated\<close>. \<open>buildProjectPath\<close> is called for a row that is pushed, and a call
  that does not return leaves the whole step without a result.
\<close>

fun push_entries ::
  "string \<Rightarrow> (string \<Rightarrow> obligations option) \<Rightarrow> Project list \<Rightarrow> Project \<Rightarrow> obligations \<Rightarrow>
   AggregatedObligation list \<Rightarrow> AggregatedObligation list option" where
  "push_entries root_id m allProjectsFlat p [] allAggregated = Some allAggregated"
| "push_entries root_id m allProjectsFlat p ((title, detail) # entries) allAggregated =
     (if status_fulfilled detail then
        if parentFulfillmentOk root_id m title detail then
          (case buildProjectPath (pId p) allProjectsFlat of
             None \<Rightarrow> None
           | Some path \<Rightarrow>
               push_entries root_id m allProjectsFlat p entries
                 (allAggregated @ [make_row p title detail path]))
        else push_entries root_id m allProjectsFlat p entries allAggregated
      else push_entries root_id m allProjectsFlat p entries allAggregated)"

text \<open>The \<open>for\<close> loop of lines 278 to 305 over the rest of the flat list.\<close>

fun aggregate_loop ::
  "string \<Rightarrow> (string \<Rightarrow> obligations option) \<Rightarrow> Project list \<Rightarrow> Project list \<Rightarrow>
   AggregatedObligation list \<Rightarrow> AggregatedObligation list option" where
  "aggregate_loop root_id m allProjectsFlat [] allAggregated = Some allAggregated"
| "aggregate_loop root_id m allProjectsFlat (p # ps) allAggregated =
     (case push_entries root_id m allProjectsFlat p
             (case m (pId p) of None \<Rightarrow> [] | Some ob \<Rightarrow> ob) allAggregated of
        None \<Rightarrow> None
      | Some allAggregated' \<Rightarrow> aggregate_loop root_id m allProjectsFlat ps allAggregated')"

definition aggregate ::
  "string \<Rightarrow> Project list \<Rightarrow> (string \<Rightarrow> obligations option) \<Rightarrow> AggregatedObligation list option" where
  "aggregate root_id allProjectsFlat m = aggregate_loop root_id m allProjectsFlat allProjectsFlat []"

section \<open>The pipeline of the effect (lines 209 to 315)\<close>

text \<open>
  The state the pipeline writes: the two pieces of component state, the messages given
  to \<open>MessageService.error\<close>, the console and the requests sent.
\<close>

record view =
  showProcessing :: bool
  aggregatedObligations :: "AggregatedObligation list"
  messages :: "string list"
  console_errors :: "string list"
  requests :: "request list"

text \<open>
  A response that is checked for its status and parsed (lines 218 to 221 and 229 to 232):
  a status other than \<open>OK\<close> throws the parsed body, an object, whose \<open>String(...)\<close>
  rendering is \<open>[object Object]\<close>; a body that cannot be read throws what \<open>json()\<close> threw.
\<close>

definition expect_ok :: "thrown + 'a response \<Rightarrow> thrown + 'a" where
  "expect_ok r =
     (case r of
        Inl e \<Rightarrow> Inl e
      | Inr res \<Rightarrow>
          if http_status res \<noteq> OK then
            (case json res of Inl e \<Rightarrow> Inl e | Inr body \<Rightarrow> Inl (Value ''[object Object]''))
          else json res)"

text \<open>
  The \<open>try\<close> block: the requests sent, the console lines, and either what was thrown or
  the list given to \<open>setAggregatedObligations\<close>. \<open>None\<close>: the block does not return.
\<close>

definition try_block ::
  "backend \<Rightarrow> string \<Rightarrow> (request list \<times> string list \<times> (thrown + AggregatedObligation list)) option" where
  "try_block bk root_id =
     (case expect_ok (getProject bk root_id) of
        Inl e \<Rightarrow> Some ([GetProject root_id], [], Inl e)
      | Inr rootProject \<Rightarrow>
          (case expect_ok (getLinkedProjects bk root_id) of
             Inl e \<Rightarrow> Some ([GetProject root_id, GetLinkedProjects root_id], [], Inl e)
           | Inr linkedProjectsData \<Rightarrow>
               (let allProjectsFlat = flatten rootProject linkedProjectsData
                in case fetch_loop bk 0 allProjectsFlat
                          (Map.empty, [GetProject root_id, GetLinkedProjects root_id], []) of
                     (projectObligationsMap, reqs, console) \<Rightarrow>
                       (case aggregate root_id allProjectsFlat projectObligationsMap of
                          None \<Rightarrow> None
                        | Some allAggregated \<Rightarrow> Some (reqs, console, Inr allAggregated)))))"

text \<open>
  The \<open>catch\<close> of lines 308 to 311: nothing for an \<open>AbortError\<close>, else one message,
  \<open>error.message\<close> of an \<open>Error\<close> and \<open>String(error)\<close> of another value.
\<close>

fun catch_error :: "thrown \<Rightarrow> view \<Rightarrow> view" where
  "catch_error AbortError v = v"
| "catch_error (Error message) v = v\<lparr>messages := messages v @ [message]\<rparr>"
| "catch_error (Value rendering) v = v\<lparr>messages := messages v @ [rendering]\<rparr>"

text \<open>The whole asynchronous function, from \<open>setShowProcessing(true)\<close> to \<open>finally\<close>.\<close>

definition load_obligations :: "backend \<Rightarrow> string \<Rightarrow> view \<Rightarrow> view option" where
  "load_obligations bk root_id v =
     (case try_block bk root_id of
        None \<Rightarrow> None
      | Some (reqs, console, result) \<Rightarrow>
          (let v1 = v\<lparr>showProcessing := True,
                       requests := requests v @ reqs,
                       console_errors := console_errors v @ console\<rparr>;
               v2 = (case result of
                       Inr allAggregated \<Rightarrow> v1\<lparr>aggregatedObligations := allAggregated\<rparr>
                     | Inl e \<Rightarrow> catch_error e v1)
           in Some (v2\<lparr>showProcessing := False\<rparr>)))"

section \<open>Notions used to state the properties\<close>

text \<open>\<open>projectObligationsMap[pId] || {}\<close>, as its list of entries.\<close>

definition entries_of :: "(string \<Rightarrow> obligations option) \<Rightarrow> string \<Rightarrow> obligations" where
  "entries_of m pid = (case m pid of None \<Rightarrow> [] | Some ob \<Rightarrow> ob)"

text \<open>
  The two tests an entry has to pass to be pushed (lines 283 and 293), taken together.
\<close>

definition passes_filter ::
  "string \<Rightarrow> (string \<Rightarrow> obligations option) \<Rightarrow> string \<times> ObligationData \<Rightarrow> bool" where
  "passes_filter root_id m entry =
     (status_fulfilled (snd entry) \<and> parentFulfillmentOk root_id m (fst entry) (snd entry))"

text \<open>The path written into the rows of a project, when \<open>buildProjectPath\<close> returns.\<close>

definition path_text :: "Project list \<Rightarrow> Project \<Rightarrow> string" where
  "path_text flat p = (case buildProjectPath (pId p) flat of None \<Rightarrow> [] | Some path \<Rightarrow> path)"

text \<open>The rows of one project: one for each entry that passes, in the order of the entries.\<close>

definition rows_of ::
  "string \<Rightarrow> (string \<Rightarrow> obligations option) \<Rightarrow> Project list \<Rightarrow> Project \<Rightarrow> AggregatedObligation list" where
  "rows_of root_id m flat p =
     map (\<lambda>entry. make_row p (fst entry) (snd entry) (path_text flat p))
       (filter (passes_filter root_id m) (entries_of m (pId p)))"

text \<open>The pair that identifies a row: the project it belongs to and the title.\<close>

definition row_key :: "AggregatedObligation \<Rightarrow> string \<times> string" where
  "row_key r = (projectId r, obligationTitle r)"

text \<open>Every link of every project names a project, as the links the backend sends do.\<close>

definition links_named :: "Project list \<Rightarrow> bool" where
  "links_named ps =
     list_all (\<lambda>p. case linkedProjects p of None \<Rightarrow> True
                   | Some lps \<Rightarrow> list_all (\<lambda>lp. project lp \<noteq> None) lps) ps"

text \<open>
  What the loop of step 3 leaves in \<open>projectObligationsMap[pId]\<close> for an answer of the
  backend: the entries of a parsed \<open>OK\<close> response, nothing otherwise.
\<close>

definition stored :: "thrown + ObligationResponse response \<Rightarrow> obligations" where
  "stored r =
     (case r of
        Inl e \<Rightarrow> []
      | Inr res \<Rightarrow>
          if http_status res = OK then
            (case json res of
               Inl e \<Rightarrow> []
             | Inr data \<Rightarrow>
                 (case obligations data of None \<Rightarrow> [] | Some entries \<Rightarrow> copy_entries [] entries))
          else [])"

text \<open>
  An answer with a status other than \<open>OK\<close>, or with a body that \<open>json()\<close> cannot give.
\<close>

definition fetch_failed :: "thrown + ObligationResponse response \<Rightarrow> bool" where
  "fetch_failed r =
     (case r of
        Inl e \<Rightarrow> False
      | Inr res \<Rightarrow> http_status res \<noteq> OK \<or> (case json res of Inl e \<Rightarrow> True | Inr data \<Rightarrow> False))"

text \<open>
  What the requests for the obligations of the projects \<open>ps\<close>, which stand at the
  positions from \<open>i\<close> on, leave for an identifier: nothing when no project of \<open>ps\<close>
  has it or it is empty, else what the answer to the last project of \<open>ps\<close> with that
  identifier leaves.
\<close>

fun answered :: "backend \<Rightarrow> nat \<Rightarrow> Project list \<Rightarrow> string \<Rightarrow> obligations option" where
  "answered bk i [] x = None"
| "answered bk i (p # ps) x =
     (case answered bk (Suc i) ps x of
        Some ob \<Rightarrow> Some ob
      | None \<Rightarrow>
          if pId p = x \<and> x \<noteq> [] then Some (stored (getLicenseObligations bk i x)) else None)"

text \<open>
  The backend that answers every request for the obligations of one project with an
  \<open>OK\<close> response without obligations, and every other request as before.
\<close>

definition answer_empty :: "backend \<Rightarrow> string \<Rightarrow> backend" where
  "answer_empty bk pid =
     bk\<lparr>getLicenseObligations :=
          (\<lambda>i q. if q = pid then Inr (Response OK (Inr \<lparr>obligations = None\<rparr>))
                 else getLicenseObligations bk i q)\<rparr>"

section \<open>Example data\<close>

text \<open>
  A root project that links one child by the address of the child, a root with a link
  that names no project, and the child.
\<close>

definition ex_root :: Project where
  "ex_root =
     Project (Some ''r'') None ''Root'' None
       (Some [\<lparr>project = Some ''https://sw360/api/projects/c''\<rparr>]) None"

definition ex_bad_root :: Project where
  "ex_bad_root = Project (Some ''r'') None ''Root'' None (Some [\<lparr>project = None\<rparr>]) None"

definition ex_child :: Project where
  "ex_child = Project (Some ''c'') None ''Child'' None None None"

text \<open>
  A project between the two, with the child nested below it; the tree that nests the
  child below this project and below the root as well; and its flat list.
\<close>

definition ex_mid :: Project where
  "ex_mid = Project (Some ''a'') None ''Mid'' None None (Some [ex_child])"

definition ex_tree :: LinkedProjects where
  "ex_tree = \<lparr>embedded_projects = Some [ex_mid, ex_child]\<rparr>"

text \<open>Obligations with a status and nothing else, and the obligations of the projects.\<close>

definition ex_ob :: "string \<Rightarrow> ObligationData" where
  "ex_ob s =
     \<lparr>status = Some s, obligationType = None, obligationLevel = None, ob_id = None,
      licenseIds = None, releases = None, comment = None\<rparr>"

definition ex_map :: "string \<Rightarrow> obligations option" where
  "ex_map =
     [''r'' \<mapsto> [(''Attribution'', ex_ob ACKNOWLEDGED_OR_FULFILLED)],
      ''c'' \<mapsto> [(''Attribution'', ex_ob FULFILLED_AND_PARENT_MUST_ALSO_FULFILL),
                 (''Notice'', ex_ob ''OPEN'')]]"

definition ex_rows :: "AggregatedObligation list" where
  "ex_rows =
     [make_row ex_root ''Attribution'' (ex_ob ACKNOWLEDGED_OR_FULFILLED) ''Root'',
      make_row ex_child ''Attribution'' (ex_ob FULFILLED_AND_PARENT_MUST_ALSO_FULFILL) ''Child'']"

definition ex_rows_twice :: "AggregatedObligation list" where
  "ex_rows_twice =
     ex_rows @
     [make_row ex_child ''Attribution'' (ex_ob FULFILLED_AND_PARENT_MUST_ALSO_FULFILL) ''Child'']"

definition ex_map_root :: "string \<Rightarrow> obligations option" where
  "ex_map_root = [''r'' \<mapsto> [(''Attribution'', ex_ob FULFILLED_AND_PARENT_MUST_ALSO_FULFILL)]]"

text \<open>
  Backends: one that answers the root and its tree (the child below the root) and takes
  the answers for the obligations as a parameter; answers from \<open>ex_map\<close>; one that
  answers the root and the tree \<open>ex_tree\<close>, whose flat list has the child at the
  positions 2 and 3; the answers from \<open>ex_map\<close> with status 500 at position 2, and with
  status 500 at position 3; a run cancelled while the obligations are fetched; a root
  that is not found; and a root that is not found, with the run cancelled while the body
  of that answer is read.
\<close>

definition ex_backend ::
  "(nat \<Rightarrow> string \<Rightarrow> thrown + ObligationResponse response) \<Rightarrow> backend" where
  "ex_backend answers =
     \<lparr>getProject = (\<lambda>pid. Inr (Response OK (Inr ex_root))),
      getLinkedProjects = (\<lambda>pid. Inr (Response OK (Inr \<lparr>embedded_projects = Some [ex_child]\<rparr>))),
      getLicenseObligations = answers\<rparr>"

definition ex_answers :: "nat \<Rightarrow> string \<Rightarrow> thrown + ObligationResponse response" where
  "ex_answers i pid = Inr (Response OK (Inr \<lparr>obligations = ex_map pid\<rparr>))"

definition ex_backend_tree ::
  "(nat \<Rightarrow> string \<Rightarrow> thrown + ObligationResponse response) \<Rightarrow> backend" where
  "ex_backend_tree answers =
     \<lparr>getProject = (\<lambda>pid. Inr (Response OK (Inr ex_root))),
      getLinkedProjects = (\<lambda>pid. Inr (Response OK (Inr ex_tree))),
      getLicenseObligations = answers\<rparr>"

definition ex_first_child_fails :: "nat \<Rightarrow> string \<Rightarrow> thrown + ObligationResponse response" where
  "ex_first_child_fails i pid =
     (if i = 2 then Inr (Response 500 (Inr \<lparr>obligations = None\<rparr>)) else ex_answers i pid)"

definition ex_last_child_fails :: "nat \<Rightarrow> string \<Rightarrow> thrown + ObligationResponse response" where
  "ex_last_child_fails i pid =
     (if i = 3 then Inr (Response 500 (Inr \<lparr>obligations = None\<rparr>)) else ex_answers i pid)"

definition ex_cancelled :: "nat \<Rightarrow> string \<Rightarrow> thrown + ObligationResponse response" where
  "ex_cancelled i pid = Inl AbortError"

definition ex_not_found :: backend where
  "ex_not_found =
     \<lparr>getProject = (\<lambda>pid. Inr (Response 404 (Inr ex_root))),
      getLinkedProjects = (\<lambda>pid. Inr (Response OK (Inr \<lparr>embedded_projects = None\<rparr>))),
      getLicenseObligations = ex_answers\<rparr>"

definition ex_not_found_cancelled :: backend where
  "ex_not_found_cancelled =
     \<lparr>getProject = (\<lambda>pid. Inr (Response 404 (Inl AbortError))),
      getLinkedProjects = (\<lambda>pid. Inl AbortError),
      getLicenseObligations = ex_cancelled\<rparr>"

definition ex_view :: view where
  "ex_view =
     \<lparr>showProcessing = False, aggregatedObligations = ex_rows, messages = [],
      console_errors = [], requests = []\<rparr>"

text \<open>
  The view after a run against \<open>ex_answers\<close>, and after the run on \<open>ex_tree\<close> in which
  the last request for the child fails.
\<close>

definition ex_view_loaded :: view where
  "ex_view_loaded =
     ex_view\<lparr>requests :=
       [GetProject ''r'', GetLinkedProjects ''r'',
        GetLicenseObligations ''r'', GetLicenseObligations ''c'']\<rparr>"

definition ex_view_last_child_failed :: view where
  "ex_view_last_child_failed =
     ex_view
       \<lparr>aggregatedObligations :=
          [make_row ex_root ''Attribution'' (ex_ob ACKNOWLEDGED_OR_FULFILLED) ''Root''],
        requests :=
          [GetProject ''r'', GetLinkedProjects ''r'', GetLicenseObligations ''r'',
           GetLicenseObligations ''a'', GetLicenseObligations ''c'',
           GetLicenseObligations ''c'']\<rparr>"

section \<open>The flat list is the pre-order of the tree\<close>

declare preorder.simps [simp del] node_count.simps [simp del]

declare path_loop.simps [code]

lemma preorder_leaf: "embedded_linkedProjects p = None \<Longrightarrow> preorder p = [p]"
  by (simp add: preorder.simps [of p])

lemma preorder_node:
  "embedded_linkedProjects p = Some lps \<Longrightarrow> preorder p = p # concat (map preorder lps)"
  by (simp add: preorder.simps [of p])

lemma extractAllProjects_preorder:
  "extractAllProjects ps acc = acc @ concat (map preorder ps)"
proof (induction ps acc rule: extractAllProjects.induct)
  case (1 acc)
  show ?case by simp
next
  case (2 p ps acc)
  show ?case
  proof (cases "embedded_linkedProjects p")
    case None
    with 2 show ?thesis by (simp add: preorder_leaf)
  next
    case (Some lps)
    with 2 show ?thesis by (cases "lps = []") (simp_all add: preorder_node)
  qed
qed

lemma length_preorder: "length (preorder p) = node_count p"
proof (induction p rule: preorder.induct)
  case (1 p)
  show ?case
  proof (cases "embedded_linkedProjects p")
    case None
    then show ?thesis by (simp add: preorder_leaf node_count.simps [of p])
  next
    case (Some lps)
    with 1 show ?thesis
      by (simp add: preorder_node node_count.simps [of p] length_concat comp_def cong: map_cong)
  qed
qed

text \<open>
  C4. For every root project and every tree of nested linked projects the backend gives
  for it, the flat list is the root followed by the pre-order of the tree: each node,
  then the pre-order of each of its nested linked projects in turn, before its next
  sibling. The root is at index 0, and the list has one element for the root and one for
  every node of the tree.
\<close>

theorem flatten_is_preorder:
  "flatten rootProject linkedProjectsData =
     rootProject # concat (map preorder
        (case embedded_projects linkedProjectsData of None \<Rightarrow> [] | Some ps \<Rightarrow> ps))
   \<and> flatten rootProject linkedProjectsData ! 0 = rootProject
   \<and> length (flatten rootProject linkedProjectsData) =
       Suc (sum_list (map node_count
        (case embedded_projects linkedProjectsData of None \<Rightarrow> [] | Some ps \<Rightarrow> ps)))"
  by (simp add: flatten_def extractAllProjects_preorder length_concat length_preorder comp_def)

section \<open>The ancestry path\<close>

lemma split_not_Nil: "split c s \<noteq> []"
  by (induction s) (auto split: list.splits)

text \<open>
  C3. The path of a child that its root links is the name of the child alone: the search
  for the parent runs after \<open>currentId\<close> was set to \<open>undefined\<close>, matches no link that
  names a project, and the walk stops after one segment, where the claim has the two
  segments \<open>Root -> Child\<close>.
\<close>

theorem buildProjectPath_child_only:
  "buildProjectPath ''c'' [ex_root, ex_child] = Some ''Child''"
  by (simp add: buildProjectPath_def path_loop.simps projectMap_def pId_def id_or_href_def
        js_or_def truthy_def href_last_def ex_root_def ex_child_def links_to_def refers_to_def
        at_last_def)

lemma find_parent_None: "links_named ps \<Longrightarrow> find_parent None ps = None"
  by (induction ps)
     (auto simp: links_named_def links_to_def refers_to_def at_last_def split_not_Nil
           list_ex_iff list_all_iff split: option.splits)

text \<open>
  When every link names a project the walk returns, with the name of the target alone (or
  nothing, for an identifier that is empty or belongs to no project).
\<close>

lemma buildProjectPath_named:
  "links_named flat \<Longrightarrow>
   buildProjectPath pid flat =
     Some (if pid = [] then [] else case projectMap flat pid of None \<Rightarrow> [] | Some p \<Rightarrow> name p)"
  by (simp add: buildProjectPath_def path_loop.simps find_parent_None split: option.splits)

text \<open>
  When the scan finds a parent whose identifier is not empty and belongs to a project,
  the walk does not return: the scan does not depend on the project reached, finds the
  same parent at every turn, and the path grows without end.
\<close>

lemma path_loop_returns_elsewhere:
  assumes parent: "find_parent None flat = Some c" and "c \<noteq> []" and "projectMap flat c = Some q"
    and run: "path_loop allProjects currentId path = Some y"
  shows "allProjects = flat \<longrightarrow> currentId \<noteq> Some c"
proof (rule path_loop.raw_induct [where P = "\<lambda>a b p y. a = flat \<longrightarrow> b \<noteq> Some c", OF _ run])
  fix f a b p z
  assume IH: "\<And>a' b' p' z'. f a' b' p' = Some z' \<Longrightarrow> a' = flat \<longrightarrow> b' \<noteq> Some c"
    and step: "(case b of
        None \<Rightarrow> Some p
      | Some cid \<Rightarrow>
          if cid = [] then Some p
          else (case projectMap a cid of
                  None \<Rightarrow> Some p
                | Some q' \<Rightarrow> f a (find_parent None a) (name q' # p))) = Some z"
  show "a = flat \<longrightarrow> b \<noteq> Some c"
  proof (intro impI notI)
    assume "a = flat" and "b = Some c"
    with step assms(1-3) have "f flat (Some c) (name q # p) = Some z" by simp
    from IH [OF this] show False by simp
  qed
qed

lemma path_loop_never_returns:
  assumes "find_parent None flat = Some c" and "c \<noteq> []" and "projectMap flat c = Some q"
  shows "path_loop flat (Some c) path = None"
proof (cases "path_loop flat (Some c) path")
  case None
  then show ?thesis .
next
  case (Some y)
  from path_loop_returns_elsewhere [OF assms this] show ?thesis by simp
qed

section \<open>The rows that step 4 builds\<close>

lemma push_entries_Some:
  "push_entries root_id m flat p entries acc = Some rows \<Longrightarrow>
   rows = acc @ map (\<lambda>entry. make_row p (fst entry) (snd entry) (path_text flat p))
                  (filter (passes_filter root_id m) entries)"
proof (induction entries arbitrary: acc)
  case Nil
  then show ?case by simp
next
  case (Cons e entries)
  obtain title detail where e: "e = (title, detail)" by (cases e)
  show ?case
  proof (cases "passes_filter root_id m e")
    case True
    with Cons.prems e obtain path where
      path: "buildProjectPath (pId p) flat = Some path" and
      rest: "push_entries root_id m flat p entries (acc @ [make_row p title detail path]) = Some rows"
      by (auto simp: passes_filter_def split: option.splits)
    from Cons.IH [OF rest] path True e show ?thesis
      by (simp add: path_text_def)
  next
    case False
    with Cons.prems e have "push_entries root_id m flat p entries acc = Some rows"
      by (auto simp: passes_filter_def split: if_splits)
    from Cons.IH [OF this] False show ?thesis by simp
  qed
qed

lemma push_entries_total:
  "buildProjectPath (pId p) flat \<noteq> None \<Longrightarrow>
   \<exists>rows. push_entries root_id m flat p entries acc = Some rows"
proof (induction entries arbitrary: acc)
  case Nil
  show ?case by simp
next
  case (Cons e entries)
  obtain title detail where e: "e = (title, detail)" by (cases e)
  from Cons show ?case unfolding e by (auto split: option.splits)
qed

lemma aggregate_loop_Some:
  "aggregate_loop root_id m flat ps acc = Some rows \<Longrightarrow>
   rows = acc @ concat (map (rows_of root_id m flat) ps)"
proof (induction ps arbitrary: acc)
  case Nil
  then show ?case by simp
next
  case (Cons p ps)
  from Cons.prems obtain acc' where
    head: "push_entries root_id m flat p (entries_of m (pId p)) acc = Some acc'" and
    rest: "aggregate_loop root_id m flat ps acc' = Some rows"
    by (auto simp: entries_of_def split: option.splits)
  from push_entries_Some [OF head] Cons.IH [OF rest] show ?case
    by (simp add: rows_of_def)
qed

lemma aggregate_loop_total:
  "list_all (\<lambda>p. buildProjectPath (pId p) flat \<noteq> None) ps \<Longrightarrow>
   \<exists>rows. aggregate_loop root_id m flat ps acc = Some rows"
proof (induction ps arbitrary: acc)
  case Nil
  show ?case by simp
next
  case (Cons p ps)
  then obtain acc' where
    "push_entries root_id m flat p (case m (pId p) of None \<Rightarrow> [] | Some ob \<Rightarrow> ob) acc = Some acc'"
    using push_entries_total [of p flat root_id m _ acc] by auto
  with Cons show ?case by simp
qed

lemma aggregate_Some:
  "aggregate root_id flat m = Some rows \<Longrightarrow> rows = concat (map (rows_of root_id m flat) flat)"
  using aggregate_loop_Some [of root_id m flat flat "[]" rows] by (simp add: aggregate_def)

lemma in_rows_of:
  "r \<in> set (rows_of root_id m flat p) \<longleftrightarrow>
     (\<exists>entry \<in> set (entries_of m (pId p)).
        passes_filter root_id m entry \<and> r = make_row p (fst entry) (snd entry) (path_text flat p))"
  by (auto simp: rows_of_def)

lemma in_rows_iff:
  "aggregate root_id flat m = Some rows \<Longrightarrow>
   r \<in> set rows \<longleftrightarrow>
     (\<exists>p \<in> set flat. \<exists>entry \<in> set (entries_of m (pId p)).
        passes_filter root_id m entry \<and> r = make_row p (fst entry) (snd entry) (path_text flat p))"
  by (drule aggregate_Some) (simp add: in_rows_of)

lemma make_row_simps:
  "status (make_row p t d path) = status d"
  "projectId (make_row p t d path) = pId p"
  "obligationTitle (make_row p t d path) = t"
  "projectName (make_row p t d path) = name p"
  "projectPath (make_row p t d path) = path"
  by (simp_all add: make_row_def)

lemma make_row_inject:
  "make_row p t d path = make_row p' t' d' path' \<Longrightarrow> t = t' \<and> d = d' \<and> pId p = pId p'"
  by (cases d; cases d') (simp add: make_row_def)

text \<open>When every link names a project, step 4 returns.\<close>

lemma aggregate_returns:
  "links_named flat \<Longrightarrow> \<exists>rows. aggregate root_id flat m = Some rows"
  unfolding aggregate_def
  by (rule aggregate_loop_total) (simp add: list_all_iff buildProjectPath_named)

lemma status_fulfilled_iff:
  "status_fulfilled d \<longleftrightarrow>
     status d = Some ACKNOWLEDGED_OR_FULFILLED \<or>
     status d = Some FULFILLED_AND_PARENT_MUST_ALSO_FULFILL"
  by (auto simp: status_fulfilled_def truthy_def fulfilledStatuses_def
        ACKNOWLEDGED_OR_FULFILLED_def FULFILLED_AND_PARENT_MUST_ALSO_FULFILL_def split: option.splits)

lemma parentFulfillmentOk_entries:
  "parentFulfillmentOk root_id m title detail =
     (if status detail = Some FULFILLED_AND_PARENT_MUST_ALSO_FULFILL then
        (case map_of (entries_of m root_id) title of
           None \<Rightarrow> False
         | Some rootOb \<Rightarrow> (case status rootOb of None \<Rightarrow> [] | Some s \<Rightarrow> s) \<in> set fulfilledStatuses)
      else True)"
  by (simp add: parentFulfillmentOk_def entries_of_def obj_get_def)

lemma status_or_empty_fulfilled:
  "(case status d of None \<Rightarrow> [] | Some s \<Rightarrow> s) \<in> set fulfilledStatuses \<longleftrightarrow> status_fulfilled d"
  by (auto simp: status_fulfilled_def truthy_def fulfilledStatuses_def
        ACKNOWLEDGED_OR_FULFILLED_def FULFILLED_AND_PARENT_MUST_ALSO_FULFILL_def split: option.splits)

lemma root_check_iff:
  assumes "distinct (map fst (entries_of m root_id))"
    and "status detail = Some FULFILLED_AND_PARENT_MUST_ALSO_FULFILL"
  shows "parentFulfillmentOk root_id m title detail \<longleftrightarrow>
     (\<exists>rootOb. (title, rootOb) \<in> set (entries_of m root_id) \<and> status_fulfilled rootOb)"
proof -
  from assms(1) have mem: "(title, d) \<in> set (entries_of m root_id) \<longleftrightarrow>
      map_of (entries_of m root_id) title = Some d" for d
    by simp
  show ?thesis
  proof (cases "map_of (entries_of m root_id) title")
    case None
    with assms(2) show ?thesis by (simp add: parentFulfillmentOk_entries mem)
  next
    case (Some rootOb)
    with assms(2) show ?thesis
      by (simp add: parentFulfillmentOk_entries mem status_or_empty_fulfilled)
  qed
qed


lemma row_included_iff:
  assumes "aggregate root_id flat m = Some rows"
    and "p \<in> set flat"
    and "(title, detail) \<in> set (entries_of m (pId p))"
  shows "(\<exists>path. make_row p title detail path \<in> set rows) \<longleftrightarrow>
         passes_filter root_id m (title, detail)"
proof
  assume "\<exists>path. make_row p title detail path \<in> set rows"
  then obtain path q entry where
    "passes_filter root_id m entry" and
    "make_row p title detail path = make_row q (fst entry) (snd entry) (path_text flat q)"
    using assms(1) by (auto simp: in_rows_iff)
  then show "passes_filter root_id m (title, detail)"
    by (cases entry) (auto dest!: make_row_inject)
next
  assume "passes_filter root_id m (title, detail)"
  with assms(2,3) have "make_row p title detail (path_text flat p) \<in> set rows"
    unfolding in_rows_iff [OF assms(1)] by force
  then show "\<exists>path. make_row p title detail path \<in> set rows" ..
qed

lemma distinct_keys_of_entries:
  "distinct (map fst es) \<Longrightarrow> distinct (map (\<lambda>entry. (c, fst entry)) (filter P es))"
proof -
  assume "distinct (map fst es)"
  then have "distinct (map fst (filter P es))" by (rule distinct_map_filter)
  then have "distinct (map (Pair c) (map fst (filter P es)))"
    by (simp add: distinct_map inj_on_def)
  then show ?thesis by (simp add: comp_def)
qed

lemma map_row_key_rows_of:
  "map row_key (rows_of root_id m flat p) =
     map (\<lambda>entry. (pId p, fst entry)) (filter (passes_filter root_id m) (entries_of m (pId p)))"
  by (simp add: rows_of_def row_key_def make_row_simps comp_def)

lemma distinct_keys_concat:
  "distinct (map pId ps) \<Longrightarrow>
   list_all (\<lambda>p. distinct (map fst (entries_of m (pId p)))) ps \<Longrightarrow>
   distinct (concat (map (\<lambda>p. map row_key (rows_of root_id m flat p)) ps))"
proof (induction ps)
  case Nil
  show ?case by simp
next
  case (Cons p ps)
  have own: "fst k = pId q" if "k \<in> set (map row_key (rows_of root_id m flat q))" for k q
    using that by (auto simp: map_row_key_rows_of)
  have "fst k \<in> pId ` set ps"
    if "k \<in> set (concat (map (\<lambda>q. map row_key (rows_of root_id m flat q)) ps))" for k
  proof -
    from that obtain q where "q \<in> set ps" "k \<in> set (map row_key (rows_of root_id m flat q))"
      by auto
    with own [of k q] show ?thesis by simp
  qed
  moreover from Cons.prems(1) have "pId p \<notin> pId ` set ps" by simp
  ultimately have
    "set (map row_key (rows_of root_id m flat p)) \<inter>
     set (concat (map (\<lambda>q. map row_key (rows_of root_id m flat q)) ps)) = {}"
    using own [of _ p] by (metis disjoint_iff)
  with Cons show ?case
    by (simp add: map_row_key_rows_of distinct_keys_of_entries)
qed

lemma ex_aggregate: "aggregate ''r'' [ex_root, ex_child] ex_map = Some ex_rows"
  by code_simp

lemma ex_aggregate_twice:
  "aggregate ''r'' [ex_root, ex_mid, ex_child, ex_child] ex_map = Some ex_rows_twice"
  by code_simp

lemma ex_aggregate_root:
  "aggregate ''r'' [ex_root] ex_map_root =
     Some [make_row ex_root ''Attribution'' (ex_ob FULFILLED_AND_PARENT_MUST_ALSO_FULFILL) ''Root'']"
  by code_simp

lemma ex_flatten: "flatten ex_root ex_tree = [ex_root, ex_mid, ex_child, ex_child]"
  by code_simp

section \<open>The inclusion rule\<close>

text \<open>
  C1. Every row of the output of step 4 has one of the two fulfilled statuses,
  \<open>ACKNOWLEDGED_OR_FULFILLED\<close> or \<open>FULFILLED_AND_PARENT_MUST_ALSO_FULFILL\<close>, and it is
  the row of an entry, with that status, of the obligations of a project of the flat
  list: an entry with another status, or with none, gives no row.
\<close>

theorem rows_have_fulfilled_status:
  assumes "aggregate root_id allProjectsFlat projectObligationsMap = Some rows"
    and "r \<in> set rows"
  shows "(status r = Some ACKNOWLEDGED_OR_FULFILLED \<or>
          status r = Some FULFILLED_AND_PARENT_MUST_ALSO_FULFILL) \<and>
         (\<exists>p detail. p \<in> set allProjectsFlat \<and> projectId r = pId p \<and>
            (obligationTitle r, detail) \<in> set (entries_of projectObligationsMap (pId p)) \<and>
            status detail = status r)"
proof -
  from assms obtain p entry where
    p: "p \<in> set allProjectsFlat" and
    entry: "entry \<in> set (entries_of projectObligationsMap (pId p))" and
    pass: "passes_filter root_id projectObligationsMap entry" and
    r: "r = make_row p (fst entry) (snd entry) (path_text allProjectsFlat p)"
    by (auto simp: in_rows_iff)
  from pass have "status_fulfilled (snd entry)" by (simp add: passes_filter_def)
  with r have "status r = Some ACKNOWLEDGED_OR_FULFILLED \<or>
      status r = Some FULFILLED_AND_PARENT_MUST_ALSO_FULFILL"
    by (simp add: status_fulfilled_iff make_row_simps)
  moreover from entry have "(fst entry, snd entry) \<in> set (entries_of projectObligationsMap (pId p))"
    by simp
  ultimately show ?thesis using p r
    by (intro conjI exI [of _ p] exI [of _ "snd entry"]) (simp_all add: make_row_simps)
qed

theorem rows_have_fulfilled_status_witness:
  "aggregate ''r'' [ex_root, ex_child] ex_map = Some ex_rows \<and>
   make_row ex_child ''Attribution'' (ex_ob FULFILLED_AND_PARENT_MUST_ALSO_FULFILL) ''Child''
     \<in> set ex_rows \<and>
   status (make_row ex_child ''Attribution'' (ex_ob FULFILLED_AND_PARENT_MUST_ALSO_FULFILL) ''Child'')
     = Some FULFILLED_AND_PARENT_MUST_ALSO_FULFILL"
proof -
  have row: "make_row ex_child ''Attribution'' (ex_ob FULFILLED_AND_PARENT_MUST_ALSO_FULFILL) ''Child''
      \<in> set ex_rows"
    by (simp add: ex_rows_def)
  from rows_have_fulfilled_status [OF ex_aggregate row] ex_aggregate row show ?thesis
    by (simp add: make_row_simps ex_ob_def)
qed

text \<open>
  With a link that names no project the walk for the path does not return, and step 4
  has no output.
\<close>

lemma ex_aggregate_never_returns: "aggregate ''r'' [ex_bad_root] ex_map_root = None"
proof -
  have "find_parent None [ex_bad_root] = Some ''r''" by code_simp
  moreover have "projectMap [ex_bad_root] ''r'' = Some ex_bad_root" by code_simp
  ultimately have "path_loop [ex_bad_root] (Some ''r'') [] = None"
    by (intro path_loop_never_returns) simp_all
  then have path: "buildProjectPath (pId ex_bad_root) [ex_bad_root] = None"
    by (simp add: buildProjectPath_def pId_def id_or_href_def js_or_def truthy_def ex_bad_root_def)
  have "status_fulfilled (ex_ob FULFILLED_AND_PARENT_MUST_ALSO_FULFILL)" by code_simp
  moreover have "parentFulfillmentOk ''r'' ex_map_root ''Attribution''
      (ex_ob FULFILLED_AND_PARENT_MUST_ALSO_FULFILL)" by code_simp
  moreover have "ex_map_root (pId ex_bad_root) =
      Some [(''Attribution'', ex_ob FULFILLED_AND_PARENT_MUST_ALSO_FULFILL)]" by code_simp
  ultimately show ?thesis using path by (simp add: aggregate_def)
qed

text \<open>
  C2. Take an entry with status \<open>FULFILLED_AND_PARENT_MUST_ALSO_FULFILL\<close> of the
  obligations of a project of the flat list. When every link of the flat list names a
  project, step 4 returns; and whenever it returns, the output has the row of that entry
  if and only if the obligations of the root identifier have an entry of the same title
  with a fulfilled status. The obligations of the root are an object, with one entry per
  title.
\<close>

theorem parent_must_also_fulfil_iff:
  assumes "p \<in> set allProjectsFlat"
    and "(title, detail) \<in> set (entries_of projectObligationsMap (pId p))"
    and "status detail = Some FULFILLED_AND_PARENT_MUST_ALSO_FULFILL"
    and "distinct (map fst (entries_of projectObligationsMap root_id))"
  shows "(links_named allProjectsFlat \<longrightarrow>
            (\<exists>rows. aggregate root_id allProjectsFlat projectObligationsMap = Some rows \<and>
               ((\<exists>path. make_row p title detail path \<in> set rows) \<longleftrightarrow>
                (\<exists>rootOb. (title, rootOb) \<in> set (entries_of projectObligationsMap root_id) \<and>
                          status_fulfilled rootOb)))) \<and>
         (\<forall>rows. aggregate root_id allProjectsFlat projectObligationsMap = Some rows \<longrightarrow>
            ((\<exists>path. make_row p title detail path \<in> set rows) \<longleftrightarrow>
             (\<exists>rootOb. (title, rootOb) \<in> set (entries_of projectObligationsMap root_id) \<and>
                       status_fulfilled rootOb)))"
proof -
  have rule: "(\<exists>path. make_row p title detail path \<in> set rows) \<longleftrightarrow>
        (\<exists>rootOb. (title, rootOb) \<in> set (entries_of projectObligationsMap root_id) \<and>
                  status_fulfilled rootOb)"
    if "aggregate root_id allProjectsFlat projectObligationsMap = Some rows" for rows
    using row_included_iff [OF that assms(1,2)] root_check_iff [OF assms(4,3), of title] assms(3)
    by (simp add: passes_filter_def status_fulfilled_iff)
  have "\<exists>rows. aggregate root_id allProjectsFlat projectObligationsMap = Some rows \<and>
      ((\<exists>path. make_row p title detail path \<in> set rows) \<longleftrightarrow>
       (\<exists>rootOb. (title, rootOb) \<in> set (entries_of projectObligationsMap root_id) \<and>
                 status_fulfilled rootOb))"
    if "links_named allProjectsFlat"
    using aggregate_returns [OF that, of root_id projectObligationsMap] rule by blast
  with rule show ?thesis by blast
qed

theorem parent_must_also_fulfil_iff_witness:
  "ex_child \<in> set [ex_root, ex_child] \<and>
   (''Attribution'', ex_ob FULFILLED_AND_PARENT_MUST_ALSO_FULFILL)
     \<in> set (entries_of ex_map (pId ex_child)) \<and>
   distinct (map fst (entries_of ex_map ''r'')) \<and>
   links_named [ex_root, ex_child] \<and>
   aggregate ''r'' [ex_root, ex_child] ex_map = Some ex_rows \<and>
   (\<exists>path. make_row ex_child ''Attribution'' (ex_ob FULFILLED_AND_PARENT_MUST_ALSO_FULFILL) path
      \<in> set ex_rows) \<and>
   (\<exists>rootOb. (''Attribution'', rootOb) \<in> set (entries_of ex_map ''r'') \<and> status_fulfilled rootOb)"
proof -
  have child: "ex_child \<in> set [ex_root, ex_child]" by simp
  have entry: "(''Attribution'', ex_ob FULFILLED_AND_PARENT_MUST_ALSO_FULFILL)
      \<in> set (entries_of ex_map (pId ex_child))"
    by code_simp
  have st: "status (ex_ob FULFILLED_AND_PARENT_MUST_ALSO_FULFILL) =
      Some FULFILLED_AND_PARENT_MUST_ALSO_FULFILL"
    by (simp add: ex_ob_def)
  have keys: "distinct (map fst (entries_of ex_map ''r''))" by code_simp
  have named: "links_named [ex_root, ex_child]" by code_simp
  have row: "\<exists>path. make_row ex_child ''Attribution'' (ex_ob FULFILLED_AND_PARENT_MUST_ALSO_FULFILL) path
      \<in> set ex_rows"
    by (rule exI [of _ "''Child''"]) (simp add: ex_rows_def)
  from parent_must_also_fulfil_iff [OF child entry st keys] row
    ex_aggregate child entry keys named
  show ?thesis by simp
qed

text \<open>
  C10. When the root project resolves to the root identifier of the aggregation, an
  entry with status \<open>FULFILLED_AND_PARENT_MUST_ALSO_FULFILL\<close> of the obligations of the
  root passes the parent check, by that very entry. When every link of the flat list names
  a project, step 4 returns; and whenever it returns, the row of that entry is in the
  output.
\<close>

theorem root_row_included:
  assumes "pId rootProject = root_id"
    and "(title, detail) \<in> set (entries_of projectObligationsMap root_id)"
    and "status detail = Some FULFILLED_AND_PARENT_MUST_ALSO_FULFILL"
    and "distinct (map fst (entries_of projectObligationsMap root_id))"
  shows "parentFulfillmentOk root_id projectObligationsMap title detail \<and>
         (links_named (rootProject # linked) \<longrightarrow>
            (\<exists>rows. aggregate root_id (rootProject # linked) projectObligationsMap = Some rows \<and>
                    (\<exists>path. make_row rootProject title detail path \<in> set rows))) \<and>
         (\<forall>rows. aggregate root_id (rootProject # linked) projectObligationsMap = Some rows \<longrightarrow>
            (\<exists>path. make_row rootProject title detail path \<in> set rows))"
proof -
  from assms(3) have own: "status_fulfilled detail" by (simp add: status_fulfilled_iff)
  with assms(2) have ok: "parentFulfillmentOk root_id projectObligationsMap title detail"
    unfolding root_check_iff [OF assms(4,3)] by blast
  from assms(1,2) have entry:
    "(title, detail) \<in> set (entries_of projectObligationsMap (pId rootProject))" by simp
  have included: "\<exists>path. make_row rootProject title detail path \<in> set rows"
    if "aggregate root_id (rootProject # linked) projectObligationsMap = Some rows" for rows
    using row_included_iff [OF that _ entry] own ok by (simp add: passes_filter_def)
  have "\<exists>rows. aggregate root_id (rootProject # linked) projectObligationsMap = Some rows \<and>
      (\<exists>path. make_row rootProject title detail path \<in> set rows)"
    if "links_named (rootProject # linked)"
    using aggregate_returns [OF that, of root_id projectObligationsMap] included by blast
  with ok included show ?thesis by blast
qed

theorem root_row_included_witness:
  "pId ex_root = ''r'' \<and>
   links_named [ex_root] \<and>
   parentFulfillmentOk ''r'' ex_map_root ''Attribution'' (ex_ob FULFILLED_AND_PARENT_MUST_ALSO_FULFILL) \<and>
   aggregate ''r'' [ex_root] ex_map_root =
     Some [make_row ex_root ''Attribution'' (ex_ob FULFILLED_AND_PARENT_MUST_ALSO_FULFILL) ''Root''] \<and>
   (\<exists>path. make_row ex_root ''Attribution'' (ex_ob FULFILLED_AND_PARENT_MUST_ALSO_FULFILL) path
      \<in> set [make_row ex_root ''Attribution'' (ex_ob FULFILLED_AND_PARENT_MUST_ALSO_FULFILL) ''Root''])"
proof -
  have root: "pId ex_root = ''r''" by code_simp
  have entry: "(''Attribution'', ex_ob FULFILLED_AND_PARENT_MUST_ALSO_FULFILL)
      \<in> set (entries_of ex_map_root ''r'')"
    by code_simp
  have st: "status (ex_ob FULFILLED_AND_PARENT_MUST_ALSO_FULFILL) =
      Some FULFILLED_AND_PARENT_MUST_ALSO_FULFILL"
    by (simp add: ex_ob_def)
  have keys: "distinct (map fst (entries_of ex_map_root ''r''))" by code_simp
  have named: "links_named [ex_root]" by code_simp
  from root_row_included [OF root entry st keys, of "[]"] ex_aggregate_root root named
  show ?thesis by simp
qed

section \<open>One row per project and title\<close>

text \<open>
  C9, as the claim has it, fails on a flat list in which a project stands twice. The
  tree nests the child below the root and below another project; its flat list has the
  child twice, and step 4 pushes the row of the child's obligation twice.
\<close>

theorem repeated_project_repeats_rows:
  "flatten ex_root ex_tree = [ex_root, ex_mid, ex_child, ex_child] \<and>
   aggregate ''r'' [ex_root, ex_mid, ex_child, ex_child] ex_map = Some ex_rows_twice \<and>
   \<not> distinct (map row_key ex_rows_twice)"
  using ex_flatten ex_aggregate_twice
  by (simp add: ex_rows_twice_def ex_rows_def row_key_def make_row_simps)

text \<open>
  C9, amended. When the projects of the flat list resolve to pairwise distinct
  identifiers (and the obligations of each are an object, with one entry per title), the
  output has exactly one row for each pair of a project and a title whose entry passes
  the two tests of the inclusion rule: no pair is the key of two rows, and the keys of the
  rows are exactly those pairs.
\<close>

theorem one_row_per_pair:
  assumes "aggregate root_id allProjectsFlat projectObligationsMap = Some rows"
    and "distinct (map pId allProjectsFlat)"
    and "list_all (\<lambda>p. distinct (map fst (entries_of projectObligationsMap (pId p)))) allProjectsFlat"
  shows "distinct (map row_key rows) \<and>
         set (map row_key rows) =
           {(pId p, fst entry) | p entry.
              p \<in> set allProjectsFlat \<and> entry \<in> set (entries_of projectObligationsMap (pId p)) \<and>
              passes_filter root_id projectObligationsMap entry}"
proof
  from assms show "distinct (map row_key rows)"
    by (simp add: aggregate_Some [OF assms(1)] map_concat comp_def distinct_keys_concat)
  show "set (map row_key rows) =
           {(pId p, fst entry) | p entry.
              p \<in> set allProjectsFlat \<and> entry \<in> set (entries_of projectObligationsMap (pId p)) \<and>
              passes_filter root_id projectObligationsMap entry}"
  proof (rule set_eqI, rule iffI)
    fix k
    assume "k \<in> set (map row_key rows)"
    then obtain r where "r \<in> set rows" and k: "k = row_key r" by auto
    then obtain p entry where
      "p \<in> set allProjectsFlat" and
      "entry \<in> set (entries_of projectObligationsMap (pId p))" and
      "passes_filter root_id projectObligationsMap entry" and
      "r = make_row p (fst entry) (snd entry) (path_text allProjectsFlat p)"
      unfolding in_rows_iff [OF assms(1)] by blast
    moreover from this k have "k = (pId p, fst entry)"
      by (simp add: row_key_def make_row_simps)
    ultimately show "k \<in> {(pId p, fst entry) | p entry.
        p \<in> set allProjectsFlat \<and> entry \<in> set (entries_of projectObligationsMap (pId p)) \<and>
        passes_filter root_id projectObligationsMap entry}"
      by blast
  next
    fix k
    assume "k \<in> {(pId p, fst entry) | p entry.
        p \<in> set allProjectsFlat \<and> entry \<in> set (entries_of projectObligationsMap (pId p)) \<and>
        passes_filter root_id projectObligationsMap entry}"
    then obtain p entry where
      k: "k = (pId p, fst entry)" and
      "p \<in> set allProjectsFlat" and
      "entry \<in> set (entries_of projectObligationsMap (pId p))" and
      "passes_filter root_id projectObligationsMap entry"
      by blast
    then have "make_row p (fst entry) (snd entry) (path_text allProjectsFlat p) \<in> set rows"
      unfolding in_rows_iff [OF assms(1)] by blast
    then have "row_key (make_row p (fst entry) (snd entry) (path_text allProjectsFlat p))
        \<in> row_key ` set rows"
      by (rule imageI)
    with k show "k \<in> set (map row_key rows)"
      by (simp add: row_key_def make_row_simps)
  qed
qed

theorem one_row_per_pair_witness:
  "aggregate ''r'' [ex_root, ex_child] ex_map = Some ex_rows \<and>
   distinct (map pId [ex_root, ex_child]) \<and>
   list_all (\<lambda>p. distinct (map fst (entries_of ex_map (pId p)))) [ex_root, ex_child] \<and>
   distinct (map row_key ex_rows) \<and>
   set (map row_key ex_rows) =
     {(pId p, fst entry) | p entry.
        p \<in> set [ex_root, ex_child] \<and> entry \<in> set (entries_of ex_map (pId p)) \<and>
        passes_filter ''r'' ex_map entry}"
proof -
  have ids: "distinct (map pId [ex_root, ex_child])" by code_simp
  have keys: "list_all (\<lambda>p. distinct (map fst (entries_of ex_map (pId p)))) [ex_root, ex_child]"
    by code_simp
  from one_row_per_pair [OF ex_aggregate ids keys] ex_aggregate ids keys
  show ?thesis by simp
qed

section \<open>Step 3: what the loop stores and sends\<close>

lemma fetch_one_map:
  "fst (fetch_one bk i p s) =
     (if pId p = [] then fst s
      else (fst s)(pId p \<mapsto> stored (getLicenseObligations bk i (pId p))))"
  by (cases s) (simp add: fetch_one_def stored_def Let_def split: sum.splits option.splits)

lemma fetch_one_reqs:
  "fst (snd (fetch_one bk i p s)) =
     (if pId p = [] then fst (snd s) else fst (snd s) @ [GetLicenseObligations (pId p)])"
  by (cases s) (simp add: fetch_one_def Let_def split: sum.splits option.splits)

lemma fetch_loop_reqs:
  "fst (snd (fetch_loop bk i ps s)) =
     fst (snd s) @ map GetLicenseObligations (filter (\<lambda>pid. pid \<noteq> []) (map pId ps))"
  by (induction ps arbitrary: i s) (simp_all add: fetch_one_reqs)

text \<open>
  The loop leaves for each identifier what the last request for it leaves: a later
  project with the same identifier starts from an empty object again (line 253).
\<close>

lemma fetch_loop_answered:
  "fst (fetch_loop bk i ps s) x =
     (case answered bk i ps x of Some ob \<Rightarrow> Some ob | None \<Rightarrow> fst s x)"
proof (induction ps arbitrary: i s)
  case Nil
  show ?case by simp
next
  case (Cons p ps)
  show ?case
    by (simp add: Cons.IH fetch_one_map split: option.splits)
qed

lemma fetch_loop_from_empty:
  "fst (fetch_loop bk i ps (Map.empty, reqs, console)) = answered bk i ps"
  by (rule ext) (simp add: fetch_loop_answered split: option.splits)

lemma answered_None: "x \<notin> set (map pId ps) \<Longrightarrow> answered bk i ps x = None"
  by (induction ps arbitrary: i) auto

lemma answered_last:
  "pId p \<notin> set (map pId after) \<Longrightarrow>
   answered bk i (before @ p # after) (pId p) =
     (if pId p = [] then None
      else Some (stored (getLicenseObligations bk (i + length before) (pId p))))"
proof (induction before arbitrary: i)
  case Nil
  then show ?case by (simp add: answered_None)
next
  case (Cons q before)
  from Cons.IH [OF Cons.prems, of "Suc i"] show ?case by simp
qed

lemma answer_empty_other:
  "x \<noteq> y \<Longrightarrow>
   getLicenseObligations (answer_empty bk y) i x = getLicenseObligations bk i x"
  by (simp add: answer_empty_def)

lemma answered_answer_empty:
  "x \<noteq> y \<Longrightarrow> answered (answer_empty bk y) i ps x = answered bk i ps x"
  by (induction ps arbitrary: i) (simp_all add: answer_empty_other split: option.splits)

lemma fetch_failed_stored: "fetch_failed r \<Longrightarrow> stored r = []"
  by (auto simp: fetch_failed_def stored_def split: sum.splits)

text \<open>
  The entries stored for a project have one entry per title, and a response that lists
  each title once, and none of them \<open>__proto__\<close>, is stored as it is, in its order.
\<close>

lemma set_own_keys:
  "map fst (set_own ob title detail) =
     (if title \<in> set (map fst ob) then map fst ob else map fst ob @ [title])"
  by (induction ob title detail rule: set_own.induct) auto

lemma set_own_new:
  "title \<notin> set (map fst ob) \<Longrightarrow> set_own ob title detail = ob @ [(title, detail)]"
  by (induction ob title detail rule: set_own.induct) auto

lemma obj_set_keys_distinct:
  "distinct (map fst ob) \<Longrightarrow> distinct (map fst (obj_set ob title detail))"
  by (simp add: obj_set_def set_own_keys)

lemma copy_entries_keys_distinct:
  "distinct (map fst ob) \<Longrightarrow> distinct (map fst (copy_entries ob entries))"
proof (induction entries arbitrary: ob)
  case Nil
  then show ?case by (simp add: copy_entries_def)
next
  case (Cons e entries)
  obtain title detail where e: "e = (title, detail)" by (cases e)
  from Cons.prems have "distinct (map fst (obj_set ob title detail))"
    by (rule obj_set_keys_distinct)
  from Cons.IH [OF this] e show ?case by (simp add: copy_entries_def)
qed

lemma copy_entries_distinct:
  "distinct (map fst (ob @ entries)) \<Longrightarrow> ''__proto__'' \<notin> set (map fst entries) \<Longrightarrow>
   copy_entries ob entries = ob @ entries"
proof (induction entries arbitrary: ob)
  case Nil
  then show ?case by (simp add: copy_entries_def)
next
  case (Cons e entries)
  obtain title detail where e: "e = (title, detail)" by (cases e)
  from Cons.prems e have "title \<notin> set (map fst ob)" and "title \<noteq> ''__proto__''"
    by auto
  then have new: "obj_set ob title detail = ob @ [(title, detail)]"
    by (simp add: obj_set_def set_own_new)
  from Cons.prems e have "distinct (map fst ((ob @ [(title, detail)]) @ entries))"
    and "''__proto__'' \<notin> set (map fst entries)"
    by simp_all
  from Cons.IH [OF this] new e show ?case by (simp add: copy_entries_def)
qed

lemma stored_keys_distinct: "distinct (map fst (stored r))"
  by (auto simp: stored_def copy_entries_keys_distinct split: sum.splits option.splits)

lemma fetch_loop_keys_distinct:
  "(\<And>x. distinct (map fst (entries_of (fst s) x))) \<Longrightarrow>
   distinct (map fst (entries_of (fst (fetch_loop bk i ps s)) x))"
proof (induction ps arbitrary: i s x)
  case Nil
  then show ?case by simp
next
  case (Cons p ps)
  have "distinct (map fst (entries_of (fst (fetch_one bk i p s)) y))" for y
    using Cons.prems [of y] by (simp add: fetch_one_map entries_of_def stored_keys_distinct)
  from Cons.IH [OF this] show ?case by simp
qed


section \<open>The pipeline\<close>

lemma expect_ok_OK [simp]: "expect_ok (Inr (Response OK (Inr x))) = Inr x"
  by (simp add: expect_ok_def)

lemma try_block_fetched:
  assumes "getProject bk root_id = Inr (Response OK (Inr rootProject))"
    and "getLinkedProjects bk root_id = Inr (Response OK (Inr linkedProjectsData))"
  shows "try_block bk root_id =
     (let flat = flatten rootProject linkedProjectsData;
          s = fetch_loop bk 0 flat (Map.empty, [GetProject root_id, GetLinkedProjects root_id], [])
      in map_option (\<lambda>rows. (fst (snd s), snd (snd s), Inr rows))
           (aggregate root_id flat (fst s)))"
  using assms
  by (simp add: try_block_def Let_def split_beta split: option.splits)


lemma entries_of_empty [simp]: "entries_of Map.empty x = []"
  by (simp add: entries_of_def)

lemma catch_error_fields:
  "aggregatedObligations (catch_error e v) = aggregatedObligations v"
  "requests (catch_error e v) = requests v"
  "e \<noteq> AbortError \<Longrightarrow> \<exists>message. messages (catch_error e v) = messages v @ [message]"
  by (cases e; simp)+

lemma load_obligations_thrown:
  "try_block bk root_id = Some (reqs, console, Inl e) \<Longrightarrow>
   \<exists>v'. load_obligations bk root_id v = Some v' \<and>
        aggregatedObligations v' = aggregatedObligations v \<and>
        requests v' = requests v @ reqs \<and>
        showProcessing v' = False \<and>
        messages v' = messages (catch_error e v)"
  by (cases e) (simp_all add: load_obligations_def)

lemma load_obligations_rows:
  "try_block bk root_id = Some (reqs, console, Inr rows) \<Longrightarrow>
   load_obligations bk root_id v =
     Some (v\<lparr>showProcessing := False, requests := requests v @ reqs,
             console_errors := console_errors v @ console, aggregatedObligations := rows\<rparr>)"
  by (simp add: load_obligations_def)

lemma rerun_same_rows:
  "load_obligations bk root_id v = Some v1 \<Longrightarrow>
   \<exists>v2. load_obligations bk root_id v1 = Some v2 \<and>
        aggregatedObligations v2 = aggregatedObligations v1"
  by (auto simp: load_obligations_def Let_def catch_error_fields split: option.splits sum.splits)


lemma expect_ok_failure:
  "http_status res \<noteq> OK \<Longrightarrow> json res \<noteq> Inl AbortError \<Longrightarrow>
   \<exists>e. expect_ok (Inr res) = Inl e \<and> e \<noteq> AbortError"
  by (cases "json res") (simp_all add: expect_ok_def)

lemma ex_not_found_run:
  "load_obligations ex_not_found ''r'' ex_view =
     Some (ex_view\<lparr>messages := [''[object Object]''], requests := [GetProject ''r'']\<rparr>)"
  by (simp add: load_obligations_def try_block_def expect_ok_def ex_not_found_def ex_view_def OK_def)

lemma ex_run: "load_obligations (ex_backend ex_answers) ''r'' ex_view = Some ex_view_loaded"
  by code_simp

lemma ex_rerun:
  "load_obligations (ex_backend ex_answers) ''r'' ex_view_loaded =
     Some (ex_view_loaded\<lparr>requests := requests ex_view_loaded @ requests ex_view_loaded\<rparr>)"
  by code_simp

lemma ex_run_first_child_failed:
  "map_option aggregatedObligations
     (load_obligations (ex_backend_tree ex_first_child_fails) ''r'' ex_view) = Some ex_rows_twice"
  by code_simp

lemma ex_run_last_child_failed:
  "load_obligations (ex_backend_tree ex_last_child_fails) ''r'' ex_view =
     Some ex_view_last_child_failed"
  by code_simp

text \<open>
  A run that is cancelled while the root or its tree is fetched leaves the rows as they
  were and sends no message.
\<close>

lemma cancelled_before_step_3:
  assumes "expect_ok (getProject bk root_id) = Inl AbortError \<or>
           (expect_ok (getProject bk root_id) = Inr rootProject \<and>
            expect_ok (getLinkedProjects bk root_id) = Inl AbortError)"
  shows "\<exists>v'. load_obligations bk root_id v = Some v' \<and>
              aggregatedObligations v' = aggregatedObligations v \<and>
              messages v' = messages v"
  using assms by (auto simp: load_obligations_def try_block_def)

text \<open>
  C5. A run that is cancelled while the obligations of the projects are fetched: the
  root and its tree were answered, and every request for obligations is rejected with
  \<open>AbortError\<close>. The inner \<open>try\<close> of lines 255 to 269 catches the rejection, the loop
  goes on, and line 307 replaces the rows the view had by the empty list. No message is
  sent.
\<close>

theorem cancelled_fetch_replaces_rows:
  "aggregatedObligations ex_view = ex_rows \<and>
   ex_rows \<noteq> [] \<and>
   map_option aggregatedObligations (load_obligations (ex_backend ex_cancelled) ''r'' ex_view) = Some [] \<and>
   map_option messages (load_obligations (ex_backend ex_cancelled) ''r'' ex_view) = Some []"
  by code_simp

text \<open>
  C6, as the claim has it, fails on a flat list in which a project stands twice. The
  flat list of \<open>ex_tree\<close> has the child at the positions 2 and 3. The request at position
  2 is answered with status 500, the one at position 3 with the obligations of the
  child: line 253 starts the object of the child anew, lines 257 to 264 fill it, and
  step 4 pushes the row of the child for both positions.
\<close>

theorem failed_fetch_of_repeated_project:
  "flatten ex_root ex_tree = [ex_root, ex_mid, ex_child, ex_child] \<and>
   pId ex_child = ''c'' \<and>
   getLicenseObligations (ex_backend_tree ex_first_child_fails) 2 ''c'' =
     Inr (Response 500 (Inr \<lparr>obligations = None\<rparr>)) \<and>
   500 \<noteq> OK \<and>
   map_option aggregatedObligations
     (load_obligations (ex_backend_tree ex_first_child_fails) ''r'' ex_view) = Some ex_rows_twice \<and>
   list_ex (\<lambda>r. projectId r = ''c'') ex_rows_twice"
proof -
  have "pId ex_child = ''c''" by code_simp
  moreover have "getLicenseObligations (ex_backend_tree ex_first_child_fails) 2 ''c'' =
      Inr (Response 500 (Inr \<lparr>obligations = None\<rparr>))"
    by (simp add: ex_backend_tree_def ex_first_child_fails_def)
  moreover have "list_ex (\<lambda>r. projectId r = ''c'') ex_rows_twice" by code_simp
  ultimately show ?thesis
    using ex_flatten ex_run_first_child_failed by (simp add: OK_def)
qed

text \<open>
  C6, amended. The root and its tree are answered, and the last request for the
  obligations of a project of the flat list (the request for it at the last position at
  which a project with its identifier stands) is answered with a status other than
  \<open>OK\<close> or with a body that cannot be parsed. Then the run returns when every link
  names a project, and a run that returns
  \<^item> has no row of that project and sends no message;
  \<^item> has sent the request of every project of the flat list that has an identifier, in
    the order of the list;
  \<^item> has, for every project of the flat list in the order of the list, the rows of the
    entries that the last request for that project left and that pass the two tests of
    the inclusion rule, in the order of the entries;
  \<^item> has the rows of a run in which the backend answers that project with no
    obligations at all.
\<close>

theorem failed_project_fetch_is_skipped:
  assumes root: "getProject bk root_id = Inr (Response OK (Inr rootProject))"
    and tree: "getLinkedProjects bk root_id = Inr (Response OK (Inr linkedProjectsData))"
    and flat: "allProjectsFlat = flatten rootProject linkedProjectsData"
    and position: "allProjectsFlat = before @ p # after"
    and last: "pId p \<notin> set (map pId after)"
    and failed: "fetch_failed (getLicenseObligations bk (length before) (pId p))"
  shows "(links_named allProjectsFlat \<longrightarrow> load_obligations bk root_id v \<noteq> None) \<and>
         (\<forall>v'. load_obligations bk root_id v = Some v' \<longrightarrow>
            (\<forall>r \<in> set (aggregatedObligations v'). projectId r \<noteq> pId p) \<and>
            messages v' = messages v \<and>
            requests v' =
              requests v @ [GetProject root_id, GetLinkedProjects root_id] @
              map GetLicenseObligations (filter (\<lambda>pid. pid \<noteq> []) (map pId allProjectsFlat)) \<and>
            aggregatedObligations v' =
              concat (map (\<lambda>q. map (\<lambda>entry. make_row q (fst entry) (snd entry)
                                           (path_text allProjectsFlat q))
                                 (filter (passes_filter root_id (answered bk 0 allProjectsFlat))
                                    (entries_of (answered bk 0 allProjectsFlat) (pId q))))
                        allProjectsFlat) \<and>
            map_option aggregatedObligations
                (load_obligations (answer_empty bk (pId p)) root_id v) =
              Some (aggregatedObligations v'))"
proof -
  let ?init = "(Map.empty, [GetProject root_id, GetLinkedProjects root_id], [])
      :: fetch_state"
  let ?bk' = "answer_empty bk (pId p)"
  define s where "s = fetch_loop bk 0 allProjectsFlat ?init"
  define s' where "s' = fetch_loop ?bk' 0 allProjectsFlat ?init"
  have map_s: "fst s = answered bk 0 allProjectsFlat"
    by (simp add: s_def fetch_loop_from_empty)
  have map_s': "fst s' = answered ?bk' 0 allProjectsFlat"
    by (simp add: s'_def fetch_loop_from_empty)
  have tb: "try_block bk root_id =
      map_option (\<lambda>rows. (fst (snd s), snd (snd s), Inr rows))
        (aggregate root_id allProjectsFlat (fst s))"
    using try_block_fetched [OF root tree] by (simp add: Let_def s_def flat)
  have "getProject ?bk' root_id = Inr (Response OK (Inr rootProject))"
    and "getLinkedProjects ?bk' root_id = Inr (Response OK (Inr linkedProjectsData))"
    using root tree by (simp_all add: answer_empty_def)
  from try_block_fetched [OF this]
  have tb': "try_block ?bk' root_id =
      map_option (\<lambda>rows. (fst (snd s'), snd (snd s'), Inr rows))
        (aggregate root_id allProjectsFlat (fst s'))"
    by (simp add: Let_def s'_def flat)
  have at_p: "answered bk 0 allProjectsFlat (pId p) = (if pId p = [] then None else Some [])"
    using answered_last [OF last, of bk 0 before] failed
    by (simp add: position fetch_failed_stored)
  have at_p': "answered ?bk' 0 allProjectsFlat (pId p) = (if pId p = [] then None else Some [])"
    using answered_last [OF last, of ?bk' 0 before]
    by (simp add: position answer_empty_def stored_def)
  have empty: "entries_of (fst s) (pId p) = []"
    by (simp add: map_s at_p entries_of_def)
  have reqs: "fst (snd s) =
      [GetProject root_id, GetLinkedProjects root_id] @
      map GetLicenseObligations (filter (\<lambda>pid. pid \<noteq> []) (map pId allProjectsFlat))"
    by (simp add: s_def fetch_loop_reqs)
  have same: "fst s = fst s'"
  proof (rule ext)
    fix x
    show "fst s x = fst s' x"
    proof (cases "x = pId p")
      case True
      with at_p at_p' show ?thesis by (simp add: map_s map_s')
    next
      case False
      then show ?thesis by (simp add: map_s map_s' answered_answer_empty)
    qed
  qed
  show ?thesis
  proof (intro conjI allI impI)
    assume "links_named allProjectsFlat"
    then obtain rows where "aggregate root_id allProjectsFlat (fst s) = Some rows"
      using aggregate_returns by blast
    with tb show "load_obligations bk root_id v \<noteq> None"
      by (simp add: load_obligations_def)
  next
    fix v'
    assume run: "load_obligations bk root_id v = Some v'"
    then obtain rows where agg: "aggregate root_id allProjectsFlat (fst s) = Some rows"
      using tb by (cases "aggregate root_id allProjectsFlat (fst s)") (simp_all add: load_obligations_def)
    with tb have "try_block bk root_id = Some (fst (snd s), snd (snd s), Inr rows)" by simp
    from load_obligations_rows [OF this, of v] run
    have v': "v' = v\<lparr>showProcessing := False, requests := requests v @ fst (snd s),
        console_errors := console_errors v @ snd (snd s), aggregatedObligations := rows\<rparr>"
      by simp
    show "\<forall>r \<in> set (aggregatedObligations v'). projectId r \<noteq> pId p"
    proof
      fix r assume "r \<in> set (aggregatedObligations v')"
      with v' have "r \<in> set rows" by simp
      then obtain q entry where
        "entry \<in> set (entries_of (fst s) (pId q))" and
        "r = make_row q (fst entry) (snd entry) (path_text allProjectsFlat q)"
        unfolding in_rows_iff [OF agg] by blast
      with empty show "projectId r \<noteq> pId p"
        by (auto simp: make_row_simps)
    qed
    from v' show "messages v' = messages v" by simp
    from v' reqs show "requests v' =
        requests v @ [GetProject root_id, GetLinkedProjects root_id] @
        map GetLicenseObligations (filter (\<lambda>pid. pid \<noteq> []) (map pId allProjectsFlat))"
      by simp
    from aggregate_Some [OF agg] v' show "aggregatedObligations v' =
        concat (map (\<lambda>q. map (\<lambda>entry. make_row q (fst entry) (snd entry)
                                     (path_text allProjectsFlat q))
                           (filter (passes_filter root_id (answered bk 0 allProjectsFlat))
                              (entries_of (answered bk 0 allProjectsFlat) (pId q))))
                  allProjectsFlat)"
      by (simp add: rows_of_def [abs_def] map_s)
    from agg same tb' have
      "try_block ?bk' root_id = Some (fst (snd s'), snd (snd s'), Inr rows)" by simp
    from load_obligations_rows [OF this, of v] v'
    show "map_option aggregatedObligations (load_obligations ?bk' root_id v) =
        Some (aggregatedObligations v')"
      by simp
  qed
qed

theorem failed_project_fetch_is_skipped_witness:
  "flatten ex_root ex_tree = [ex_root, ex_mid, ex_child] @ ex_child # [] \<and>
   links_named [ex_root, ex_mid, ex_child, ex_child] \<and>
   fetch_failed (getLicenseObligations (ex_backend_tree ex_last_child_fails) 3 (pId ex_child)) \<and>
   load_obligations (ex_backend_tree ex_last_child_fails) ''r'' ex_view =
     Some ex_view_last_child_failed \<and>
   list_all (\<lambda>r. projectId r \<noteq> pId ex_child) (aggregatedObligations ex_view_last_child_failed) \<and>
   messages ex_view_last_child_failed = messages ex_view \<and>
   requests ex_view_last_child_failed =
     requests ex_view @ [GetProject ''r'', GetLinkedProjects ''r''] @
     map GetLicenseObligations
       (filter (\<lambda>pid. pid \<noteq> []) (map pId [ex_root, ex_mid, ex_child, ex_child])) \<and>
   map_option aggregatedObligations
       (load_obligations (answer_empty (ex_backend_tree ex_last_child_fails) (pId ex_child))
          ''r'' ex_view) =
     Some (aggregatedObligations ex_view_last_child_failed)"
proof -
  let ?bk = "ex_backend_tree ex_last_child_fails"
  have root: "getProject ?bk ''r'' = Inr (Response OK (Inr ex_root))"
    by (simp add: ex_backend_tree_def)
  have tree: "getLinkedProjects ?bk ''r'' = Inr (Response OK (Inr ex_tree))"
    by (simp add: ex_backend_tree_def)
  have flat: "[ex_root, ex_mid, ex_child, ex_child] = flatten ex_root ex_tree"
    by (simp add: ex_flatten)
  have position: "[ex_root, ex_mid, ex_child, ex_child] = [ex_root, ex_mid, ex_child] @ ex_child # []"
    by simp
  have last: "pId ex_child \<notin> set (map pId [])" by simp
  have named: "links_named [ex_root, ex_mid, ex_child, ex_child]" by code_simp
  have failed: "fetch_failed (getLicenseObligations ?bk (length [ex_root, ex_mid, ex_child]) (pId ex_child))"
    by code_simp
  have failed3: "fetch_failed (getLicenseObligations ?bk 3 (pId ex_child))" by code_simp
  have shape: "flatten ex_root ex_tree = [ex_root, ex_mid, ex_child] @ ex_child # []"
    by (simp add: ex_flatten)
  note run = ex_run_last_child_failed
  from failed_project_fetch_is_skipped [OF root tree flat position last failed, of ex_view] run
  have rows: "\<forall>r \<in> set (aggregatedObligations ex_view_last_child_failed).
        projectId r \<noteq> pId ex_child"
    and msgs: "messages ex_view_last_child_failed = messages ex_view"
    and reqs: "requests ex_view_last_child_failed =
        requests ex_view @ [GetProject ''r'', GetLinkedProjects ''r''] @
        map GetLicenseObligations
          (filter (\<lambda>pid. pid \<noteq> []) (map pId [ex_root, ex_mid, ex_child, ex_child]))"
    and empty: "map_option aggregatedObligations
        (load_obligations (answer_empty (ex_backend_tree ex_last_child_fails) (pId ex_child))
           ''r'' ex_view) =
        Some (aggregatedObligations ex_view_last_child_failed)"
    by blast+
  from rows have none: "list_all (\<lambda>r. projectId r \<noteq> pId ex_child)
      (aggregatedObligations ex_view_last_child_failed)"
    by (simp add: list_all_iff)
  from shape named failed3 run none msgs reqs empty show ?thesis by blast
qed

text \<open>
  C7, as the claim has it, fails on a run that is cancelled while the body of the answer
  is read: the root is answered with status 404, \<open>json()\<close> is rejected with
  \<open>AbortError\<close>, and the \<open>catch\<close> of line 309 returns without a message.
\<close>

theorem fatal_fetch_failure_cancelled:
  "getProject ex_not_found_cancelled ''r'' = Inr (Response 404 (Inl AbortError)) \<and>
   404 \<noteq> OK \<and>
   map_option messages (load_obligations ex_not_found_cancelled ''r'' ex_view) = Some []"
  by (simp add: load_obligations_def try_block_def expect_ok_def ex_not_found_cancelled_def
        ex_view_def OK_def)

text \<open>
  C7, amended. When the request for the root, or (the root being answered) the request
  for its tree, is answered with a status other than \<open>OK\<close>, and the run is not cancelled
  while the body of that answer is read, the run returns, has sent exactly one more
  message, has left the rows as they were, has sent no request after the one that failed,
  and has reset the processing flag.
\<close>

theorem fatal_fetch_failure:
  assumes "(getProject bk root_id = Inr res \<and> http_status res \<noteq> OK \<and> json res \<noteq> Inl AbortError) \<or>
           (getProject bk root_id = Inr (Response OK (Inr rootProject)) \<and>
            getLinkedProjects bk root_id = Inr res' \<and> http_status res' \<noteq> OK \<and>
            json res' \<noteq> Inl AbortError)"
  shows "\<exists>v' message.
           load_obligations bk root_id v = Some v' \<and>
           messages v' = messages v @ [message] \<and>
           aggregatedObligations v' = aggregatedObligations v \<and>
           (requests v' = requests v @ [GetProject root_id] \<or>
            requests v' = requests v @ [GetProject root_id, GetLinkedProjects root_id]) \<and>
           showProcessing v' = False"
proof -
  from assms obtain reqs e where
    tb: "try_block bk root_id = Some (reqs, [], Inl e)" and
    e: "e \<noteq> AbortError" and
    reqs: "reqs = [GetProject root_id] \<or> reqs = [GetProject root_id, GetLinkedProjects root_id]"
  proof
    assume a: "getProject bk root_id = Inr res \<and> http_status res \<noteq> OK \<and> json res \<noteq> Inl AbortError"
    then obtain e where "expect_ok (getProject bk root_id) = Inl e" "e \<noteq> AbortError"
      using expect_ok_failure [of res] by auto
    then have "try_block bk root_id = Some ([GetProject root_id], [], Inl e)"
      by (simp add: try_block_def)
    with \<open>e \<noteq> AbortError\<close> that show thesis by blast
  next
    assume a: "getProject bk root_id = Inr (Response OK (Inr rootProject)) \<and>
            getLinkedProjects bk root_id = Inr res' \<and> http_status res' \<noteq> OK \<and>
            json res' \<noteq> Inl AbortError"
    then obtain e where "expect_ok (getLinkedProjects bk root_id) = Inl e" "e \<noteq> AbortError"
      using expect_ok_failure [of res'] by auto
    with a have "try_block bk root_id =
        Some ([GetProject root_id, GetLinkedProjects root_id], [], Inl e)"
      by (simp add: try_block_def)
    with \<open>e \<noteq> AbortError\<close> that show thesis by blast
  qed
  from load_obligations_thrown [OF tb, of v] obtain v' where
    v': "load_obligations bk root_id v = Some v'"
      "aggregatedObligations v' = aggregatedObligations v"
      "requests v' = requests v @ reqs"
      "showProcessing v' = False"
      "messages v' = messages (catch_error e v)"
    by blast
  from catch_error_fields(3) [OF e, of v] obtain message where
    "messages (catch_error e v) = messages v @ [message]" by blast
  with v' reqs show ?thesis by auto
qed

theorem fatal_fetch_failure_witness:
  "getProject ex_not_found ''r'' = Inr (Response 404 (Inr ex_root)) \<and>
   404 \<noteq> OK \<and>
   load_obligations ex_not_found ''r'' ex_view =
     Some (ex_view\<lparr>messages := [''[object Object]''], requests := [GetProject ''r'']\<rparr>) \<and>
   (\<exists>v' message.
      load_obligations ex_not_found ''r'' ex_view = Some v' \<and>
      messages v' = messages ex_view @ [message] \<and>
      aggregatedObligations v' = aggregatedObligations ex_view \<and>
      (requests v' = requests ex_view @ [GetProject ''r''] \<or>
       requests v' = requests ex_view @ [GetProject ''r'', GetLinkedProjects ''r'']) \<and>
      showProcessing v' = False)"
proof -
  have get: "getProject ex_not_found ''r'' = Inr (Response 404 (Inr ex_root))"
    by (simp add: ex_not_found_def)
  have st: "http_status (Response 404 (Inr ex_root)) \<noteq> OK" by (simp add: OK_def)
  have body: "json (Response 404 (Inr ex_root)) \<noteq> Inl AbortError" by simp
  from get st body have
    "(getProject ex_not_found ''r'' = Inr (Response 404 (Inr ex_root)) \<and>
      http_status (Response 404 (Inr ex_root)) \<noteq> OK \<and>
      json (Response 404 (Inr ex_root)) \<noteq> Inl AbortError) \<or>
     (getProject ex_not_found ''r'' = Inr (Response OK (Inr ex_root)) \<and>
      getLinkedProjects ex_not_found ''r'' = Inr (Response OK (Inr \<lparr>embedded_projects = None\<rparr>)) \<and>
      http_status (Response OK (Inr \<lparr>embedded_projects = None\<rparr>)) \<noteq> OK \<and>
      json (Response OK (Inr \<lparr>embedded_projects = None\<rparr>)) \<noteq> Inl AbortError)"
    by simp
  from fatal_fetch_failure [OF this, of ex_view] get ex_not_found_run show ?thesis
    by (simp add: OK_def)
qed

text \<open>
  C8. The rows of step 4 are a function of the root identifier, the flat list and the
  obligations of the projects: the rows of the projects in the order of the flat list,
  and for each project the rows of its entries that pass, in the order of the entries.
  A run that is repeated against the same backend returns and leaves the same rows.
\<close>

theorem aggregation_is_deterministic:
  "(aggregate root_id allProjectsFlat projectObligationsMap = Some rows \<longrightarrow>
      rows =
        concat (map (\<lambda>p. map (\<lambda>entry. make_row p (fst entry) (snd entry) (path_text allProjectsFlat p))
                            (filter (passes_filter root_id projectObligationsMap)
                               (entries_of projectObligationsMap (pId p))))
                  allProjectsFlat)) \<and>
   (load_obligations bk root_id v = Some v1 \<longrightarrow>
      (\<exists>v2. load_obligations bk root_id v1 = Some v2 \<and>
            aggregatedObligations v2 = aggregatedObligations v1))"
proof (intro conjI impI)
  assume "aggregate root_id allProjectsFlat projectObligationsMap = Some rows"
  from aggregate_Some [OF this] show
    "rows =
       concat (map (\<lambda>p. map (\<lambda>entry. make_row p (fst entry) (snd entry) (path_text allProjectsFlat p))
                           (filter (passes_filter root_id projectObligationsMap)
                              (entries_of projectObligationsMap (pId p))))
                 allProjectsFlat)"
    by (simp add: rows_of_def [abs_def])
next
  assume "load_obligations bk root_id v = Some v1"
  then show "\<exists>v2. load_obligations bk root_id v1 = Some v2 \<and>
      aggregatedObligations v2 = aggregatedObligations v1"
    by (rule rerun_same_rows)
qed

theorem aggregation_is_deterministic_witness:
  "aggregate ''r'' [ex_root, ex_child] ex_map = Some ex_rows \<and>
   ex_rows =
     concat (map (\<lambda>p. map (\<lambda>entry. make_row p (fst entry) (snd entry) (path_text [ex_root, ex_child] p))
                         (filter (passes_filter ''r'' ex_map) (entries_of ex_map (pId p))))
               [ex_root, ex_child]) \<and>
   load_obligations (ex_backend ex_answers) ''r'' ex_view = Some ex_view_loaded \<and>
   (\<exists>v2. load_obligations (ex_backend ex_answers) ''r'' ex_view_loaded = Some v2 \<and>
         aggregatedObligations v2 = aggregatedObligations ex_view_loaded)"
  using aggregation_is_deterministic
      [of "''r''" "[ex_root, ex_child]" ex_map ex_rows "ex_backend ex_answers" ex_view
          ex_view_loaded]
    ex_aggregate ex_run
  by simp


end
